theory Spec2Isabelle
  imports Complex_Main
begin

section \<open>The vote routes of the forum backend\<close>

text \<open>
  This theory embeds \<^verbatim>\<open>forum-backend/routes/votes.js\<close>: the two POST handlers
  \<^verbatim>\<open>/thread/:threadId\<close> and \<^verbatim>\<open>/thread/:threadId/reply/:replyId\<close>.

  Identifiers (Mongo ObjectIds) are modelled by their \<^verbatim>\<open>toString()\<close> form, a string,
  which is the form the handlers compare. Stored vote types are the strings the code
  compares (\<^verbatim>\<open>'upvote'\<close>, \<^verbatim>\<open>'downvote'\<close>). Arrays are lists, in array order.
  The two collections (threads, users) are finite maps from identifier to document; the
  handlers run after \<^verbatim>\<open>requireAuth\<close>, so the authenticated user's id is an argument.
  The \<^verbatim>\<open>type\<close> of the request body is any JSON value, or absent. The \<^verbatim>\<open>catch\<close> branch
  (status 500) is reached where \<^verbatim>\<open>thread.save()\<close> rejects a vote whose type is not a
  string; apart from that the collections are taken to answer every call.
\<close>

subsection \<open>Documents\<close>

record vote =
  user :: string
  type :: string

text \<open>A reply owns its votes and its nested replies (\<^verbatim>\<open>reply._id\<close>, \<^verbatim>\<open>reply.votes\<close>,
  \<^verbatim>\<open>reply.replies\<close>); \<^verbatim>\<open>reply_content\<close> stands for the fields the handlers never touch.\<close>

datatype reply =
  Reply (reply_id: string) (reply_content: string) (reply_votes: "vote list")
        (reply_replies: "reply list")

record thread =
  author :: string
  votes :: "vote list"
  replies :: "reply list"

record account =
  username :: string
  reputation :: int

record db =
  threads :: "string \<rightharpoonup> thread"
  users :: "string \<rightharpoonup> account"

subsection \<open>Responses\<close>

text \<open>The values of the request body and the value handed to \<^verbatim>\<open>res.json\<close>: an object
  is the list of its keys and values, in the order they are written. \<^verbatim>\<open>null\<close> and
  \<^verbatim>\<open>undefined\<close> (also: a key that is absent) are kept apart. \<open>JErrorMessage\<close> is the
  \<^verbatim>\<open>error.message\<close> of a caught exception, a string whose text is the library's.\<close>

datatype json =
  JNull
  | JUndefined
  | JBool bool
  | JStr string
  | JNum rat
  | JArr "json list"
  | JObj "(string \<times> json) list"
  | JErrorMessage

record response =
  status :: nat
  body :: "(string \<times> json) list"

subsection \<open>Array helpers of the language\<close>

text \<open>\<^verbatim>\<open>Array.prototype.findIndex\<close>: the first index whose element satisfies the
  predicate; \<open>None\<close> stands for the result \<^verbatim>\<open>-1\<close>.\<close>

fun findIndex :: "('a \<Rightarrow> bool) \<Rightarrow> 'a list \<Rightarrow> nat option" where
  "findIndex P [] = None"
| "findIndex P (x # xs) = (if P x then Some 0 else map_option Suc (findIndex P xs))"

text \<open>\<^verbatim>\<open>xs.splice(i, 1)\<close>: the array without its element at index \<open>i\<close>.\<close>

definition splice1 :: "nat \<Rightarrow> 'a list \<Rightarrow> 'a list" where
  "splice1 i xs = take i xs @ drop (Suc i) xs"

subsection \<open>The vote mutation\<close>

text \<open>Lines 28--48 of the thread handler and lines 92--105 of \<^verbatim>\<open>findAndVoteReply\<close>
  are the same block: look the user's entry up, then remove it, retype it or push a new
  one. The block mutates the array in place; here it returns the new array.\<close>

definition applyVote :: "vote list \<Rightarrow> string \<Rightarrow> string \<Rightarrow> vote list" where
  "applyVote vs userId voteType =
     (case findIndex (\<lambda>vote. user vote = userId) vs of
        Some existingVoteIndex \<Rightarrow>
          (let existingVote = vs ! existingVoteIndex in
           if type existingVote = voteType
           then splice1 existingVoteIndex vs
           else vs[existingVoteIndex := existingVote\<lparr>type := voteType\<rparr>])
      | None \<Rightarrow> vs @ [\<lparr>user = userId, type = voteType\<rparr>])"

text \<open>Lines 53--54: upvotes minus downvotes.\<close>

definition voteCount :: "vote list \<Rightarrow> int" where
  "voteCount vs =
     int (length (filter (\<lambda>v. type v = ''upvote'') vs))
     - int (length (filter (\<lambda>v. type v = ''downvote'') vs))"

subsection \<open>Request validation\<close>

text \<open>\<^verbatim>\<open>body('type').isIn(['upvote', 'downvote'])\<close>. The validation library turns the
  value into text and asks whether the text is one of the two options. A string is its own
  text; an array of one element has the text of that element (\<^verbatim>\<open>Array.prototype.toString\<close>);
  every other value has a text that is neither option: the empty text for \<^verbatim>\<open>null\<close>, an
  absent value and the empty array, a numeral for a number, \<^verbatim>\<open>true\<close> or \<^verbatim>\<open>false\<close> for a
  boolean, a text with a comma for a longer array, \<^verbatim>\<open>[object Object]\<close> or a list of key
  names for an object.\<close>

fun isIn :: "json \<Rightarrow> bool" where
  "isIn (JStr s) = (s \<in> set [''upvote'', ''downvote''])"
| "isIn (JArr [x]) = isIn x"
| "isIn _ = False"

text \<open>One entry of \<^verbatim>\<open>errors.array()\<close>, for the value that failed.\<close>

definition fieldError :: "json \<Rightarrow> json" where
  "fieldError v =
     JObj [(''type'', JStr ''field''), (''value'', v),
           (''msg'', JStr ''Vote type must be upvote or downvote''),
           (''path'', JStr ''type''), (''location'', JStr ''body'')]"

text \<open>The chain followed by \<^verbatim>\<open>validationResult\<close>. The library checks an array element by
  element and any other value (an absent one is \<open>JUndefined\<close>) as it is, and records one
  error for each value that fails; so an array passes when each of its elements does, and
  the empty array passes. The result is the error array, or, when that is empty, the
  \<^verbatim>\<open>type\<close> the handler reads from the body.\<close>

definition validationResult :: "json \<Rightarrow> json list + json" where
  "validationResult reqType =
     (case map fieldError
             (filter (\<lambda>v. \<not> isIn v) (case reqType of JArr xs \<Rightarrow> xs | _ \<Rightarrow> [reqType])) of
        [] \<Rightarrow> Inr reqType
      | e # es \<Rightarrow> Inl (e # es))"

subsection \<open>Collection operations\<close>

text \<open>\<^verbatim>\<open>User.findByIdAndUpdate(id, {$set: {reputation: r}})\<close>: sets the field of the
  document with that id, and does nothing when there is none.\<close>

definition findByIdAndUpdate :: "(string \<rightharpoonup> account) \<Rightarrow> string \<Rightarrow> int \<Rightarrow> (string \<rightharpoonup> account)" where
  "findByIdAndUpdate us uid r =
     (case us uid of None \<Rightarrow> us | Some u \<Rightarrow> us(uid \<mapsto> u\<lparr>reputation := r\<rparr>))"

text \<open>Modelled from the spec: the vote schema of \<^verbatim>\<open>models/Threads\<close>, which is not among the
  sources. The spec's data model gives a vote the type Upvote or Downvote, so the stored
  field holds a string. A \<^verbatim>\<open>type\<close> that passed validation but is not a string (an array)
  cannot be stored in it: \<^verbatim>\<open>thread.save()\<close> rejects, what the handler did to the document in
  memory is dropped, and the \<^verbatim>\<open>catch\<close> branch answers.\<close>

definition saveRejected :: response where
  "saveRejected =
     \<lparr>status = 500, body = [(''message'', JStr ''Server error''), (''error'', JErrorMessage)]\<rparr>"

subsection \<open>POST /thread/:threadId\<close>

definition voteThread :: "db \<Rightarrow> string \<Rightarrow> string \<Rightarrow> json \<Rightarrow> response \<times> db" where
  "voteThread d threadId userId reqType =
     (case validationResult reqType of
        Inl errors \<Rightarrow> (\<lparr>status = 400, body = [(''errors'', JArr errors)]\<rparr>, d)
      | Inr type' \<Rightarrow>
          (case threads d threadId of
             None \<Rightarrow> (\<lparr>status = 404, body = [(''message'', JStr ''Thread not found'')]\<rparr>, d)
           | Some thr \<Rightarrow>
               (case type' of
                  JStr voteType \<Rightarrow>
                    (let existingVoteIndex = findIndex (\<lambda>vote. user vote = userId) (votes thr);
                         thr' = thr\<lparr>votes := applyVote (votes thr) userId voteType\<rparr>;
                         d1 = d\<lparr>threads := (threads d)(threadId \<mapsto> thr')\<rparr>;
                         n = voteCount (votes thr');
                         d2 = d1\<lparr>users := findByIdAndUpdate (users d1) (author thr')
                                            (max 0 (n * 10))\<rparr>
                     in (\<lparr>status = 200,
                          body = [(''message'', JStr ''Vote recorded successfully''),
                                  (''voteCount'', JNum (of_int n)),
                                  (''userVote'',
                                     if existingVoteIndex \<noteq> None
                                     then (case find (\<lambda>v. user v = userId) (votes thr') of
                                             Some v \<Rightarrow> JStr (type v)
                                           | None \<Rightarrow> JUndefined)
                                     else JNull)]\<rparr>,
                         d2))
                | _ \<Rightarrow> (saveRejected, d))))"

subsection \<open>POST /thread/:threadId/reply/:replyId\<close>

text \<open>\<^verbatim>\<open>findAndVoteReply\<close> walks the array in order; at each reply it compares the id,
  then descends into a non-empty \<^verbatim>\<open>reply.replies\<close>, then goes on with the next reply.
  The source mutates the found reply in place and returns a boolean; here the boolean comes
  with the array as it is after the call.\<close>

fun findAndVoteReply :: "reply list \<Rightarrow> string \<Rightarrow> string \<Rightarrow> string \<Rightarrow> bool \<times> reply list" where
  "findAndVoteReply [] replyId userId voteType = (False, [])"
| "findAndVoteReply (Reply i c vs rs # rest) replyId userId voteType =
     (if i = replyId then (True, Reply i c (applyVote vs userId voteType) rs # rest)
      else
        (case (if length rs > 0 then findAndVoteReply rs replyId userId voteType
               else (False, rs)) of
           (True, rs') \<Rightarrow> (True, Reply i c vs rs' # rest)
         | (False, _) \<Rightarrow>
             (case findAndVoteReply rest replyId userId voteType of
                (found, rest') \<Rightarrow> (found, Reply i c vs rs # rest'))))"

text \<open>The boolean of the same walk when the vote type is not a string: the walk and its
  comparisons of ids are those of \<^verbatim>\<open>findAndVoteReply\<close>, and what it writes into the found
  reply is dropped with the rejected save.\<close>

fun findReply :: "reply list \<Rightarrow> string \<Rightarrow> bool" where
  "findReply [] replyId = False"
| "findReply (Reply i c vs rs # rest) replyId =
     (if i = replyId then True
      else if (if length rs > 0 then findReply rs replyId else False) then True
      else findReply rest replyId)"

definition voteReply :: "db \<Rightarrow> string \<Rightarrow> string \<Rightarrow> string \<Rightarrow> json \<Rightarrow> response \<times> db" where
  "voteReply d threadId replyId userId reqType =
     (case validationResult reqType of
        Inl errors \<Rightarrow> (\<lparr>status = 400, body = [(''errors'', JArr errors)]\<rparr>, d)
      | Inr type' \<Rightarrow>
          (case threads d threadId of
             None \<Rightarrow> (\<lparr>status = 404, body = [(''message'', JStr ''Thread not found'')]\<rparr>, d)
           | Some thr \<Rightarrow>
               (case type' of
                  JStr voteType \<Rightarrow>
                    (case findAndVoteReply (replies thr) replyId userId voteType of
                       (False, _) \<Rightarrow>
                         (\<lparr>status = 404, body = [(''message'', JStr ''Reply not found'')]\<rparr>, d)
                     | (True, rs') \<Rightarrow>
                         (\<lparr>status = 200,
                           body = [(''message'', JStr ''Vote recorded successfully'')]\<rparr>,
                          d\<lparr>threads := (threads d)(threadId \<mapsto> thr\<lparr>replies := rs'\<rparr>)\<rparr>))
                | _ \<Rightarrow>
                    (if findReply (replies thr) replyId then (saveRejected, d)
                     else (\<lparr>status = 404, body = [(''message'', JStr ''Reply not found'')]\<rparr>,
                           d)))))"

section \<open>Notions used to state the properties\<close>

text \<open>The nodes of a reply forest in depth-first pre-order: a reply, then the nodes
  below it, then the nodes of its later siblings.\<close>

fun preorder :: "reply list \<Rightarrow> reply list" where
  "preorder [] = []"
| "preorder (Reply i c vs rs # rest) = Reply i c vs rs # preorder rs @ preorder rest"

text \<open>A reply with every vote array of its subtree emptied: what is left is the shape
  of the subtree, its ids and its contents.\<close>

fun eraseVotes :: "reply \<Rightarrow> reply" where
  "eraseVotes (Reply i c vs rs) = Reply i c [] (map eraseVotes rs)"

text \<open>At most one entry per user in a vote array; the same for a thread's own array and
  the array of every reply below it.\<close>

definition oneVotePerUser :: "vote list \<Rightarrow> bool" where
  "oneVotePerUser vs = distinct (map user vs)"

definition threadInv :: "thread \<Rightarrow> bool" where
  "threadInv thr =
     (oneVotePerUser (votes thr)
      \<and> list_all (\<lambda>r. oneVotePerUser (reply_votes r)) (preorder (replies thr)))"

text \<open>A thread by \<open>a1\<close> whose reply \<open>A\<close> has the children \<open>B\<close> and \<open>C\<close>, and \<open>C\<close> the child
  \<open>D\<close>; a database holding it under the id \<open>T\<close>.\<close>

definition thread0 :: thread where
  "thread0 =
     \<lparr>author = ''a1'', votes = [],
      replies =
        [Reply ''A'' ''first'' []
           [Reply ''B'' ''second'' [] [],
            Reply ''C'' ''third'' [\<lparr>user = ''u2'', type = ''upvote''\<rparr>]
              [Reply ''D'' ''fourth'' [] []]]]\<rparr>"

definition db0 :: db where
  "db0 = \<lparr>threads = [''T'' \<mapsto> thread0],
          users = [''a1'' \<mapsto> \<lparr>username = ''alice'', reputation = 0\<rparr>]\<rparr>"

text \<open>The same database after three users have voted on the thread.\<close>

definition votes3 :: "vote list" where
  "votes3 = [\<lparr>user = ''u1'', type = ''upvote''\<rparr>, \<lparr>user = ''u2'', type = ''downvote''\<rparr>,
             \<lparr>user = ''u3'', type = ''upvote''\<rparr>]"

definition db1 :: db where
  "db1 = db0\<lparr>threads := [''T'' \<mapsto> thread0\<lparr>votes := votes3\<rparr>]\<rparr>"

section \<open>Properties\<close>

subsection \<open>The array helpers\<close>

lemma findIndex_None_iff: "findIndex P xs = None \<longleftrightarrow> (\<forall>x\<in>set xs. \<not> P x)"
  by (induction xs) auto

lemma findIndex_Some_lt: "findIndex P xs = Some i \<Longrightarrow> i < length xs"
  by (induction xs arbitrary: i) (auto split: if_splits)

lemma findIndex_Some_nth: "findIndex P xs = Some i \<Longrightarrow> P (xs ! i)"
  by (induction xs arbitrary: i) (auto split: if_splits)

lemma findIndex_Some_first: "findIndex P xs = Some i \<Longrightarrow> j < i \<Longrightarrow> \<not> P (xs ! j)"
proof (induction xs arbitrary: i j)
  case Nil
  then show ?case by simp
next
  case (Cons x xs)
  then show ?case by (cases j) (auto split: if_splits)
qed

lemma find_findIndex: "find P xs = map_option (\<lambda>i. xs ! i) (findIndex P xs)"
  by (induction xs) (auto simp: option.map_comp comp_def)

lemma findIndex_decomp:
  "findIndex P xs = Some i \<Longrightarrow>
     xs = takeWhile (\<lambda>x. \<not> P x) xs @ (xs ! i) # tl (dropWhile (\<lambda>x. \<not> P x) xs)"
  by (induction xs arbitrary: i) (auto split: if_splits)

lemma findIndex_take: "findIndex P xs = Some i \<Longrightarrow> take i xs = takeWhile (\<lambda>x. \<not> P x) xs"
  by (induction xs arbitrary: i) (auto split: if_splits)

lemma findIndex_drop:
  "findIndex P xs = Some i \<Longrightarrow> drop (Suc i) xs = tl (dropWhile (\<lambda>x. \<not> P x) xs)"
  by (induction xs arbitrary: i) (auto split: if_splits)

subsection \<open>The three cases of the vote mutation\<close>

lemma applyVote_absent:
  "find (\<lambda>v. user v = u) vs = None \<Longrightarrow> applyVote vs u t = vs @ [\<lparr>user = u, type = t\<rparr>]"
  by (simp add: applyVote_def find_findIndex)

lemma applyVote_same:
  assumes "find (\<lambda>v. user v = u) vs = Some v" and "type v = t"
  shows "applyVote vs u t =
         takeWhile (\<lambda>v. user v \<noteq> u) vs @ tl (dropWhile (\<lambda>v. user v \<noteq> u) vs)"
proof -
  from assms(1) obtain i where i: "findIndex (\<lambda>v. user v = u) vs = Some i" "vs ! i = v"
    by (auto simp: find_findIndex)
  then show ?thesis using assms(2)
    by (simp add: applyVote_def splice1_def findIndex_take findIndex_drop)
qed

lemma applyVote_other:
  assumes "find (\<lambda>v. user v = u) vs = Some v" and "type v \<noteq> t"
  shows "applyVote vs u t =
         takeWhile (\<lambda>v. user v \<noteq> u) vs @ v\<lparr>type := t\<rparr> # tl (dropWhile (\<lambda>v. user v \<noteq> u) vs)"
proof -
  from assms(1) obtain i where i: "findIndex (\<lambda>v. user v = u) vs = Some i" "vs ! i = v"
    by (auto simp: find_findIndex)
  have "vs[i := v\<lparr>type := t\<rparr>] = take i vs @ v\<lparr>type := t\<rparr> # drop (Suc i) vs"
    using findIndex_Some_lt[OF i(1)] by (simp add: upd_conv_take_nth_drop)
  then show ?thesis using assms(2) i
    by (simp add: applyVote_def findIndex_take findIndex_drop)
qed

lemma find_decomp:
  assumes "find (\<lambda>v. user v = u) vs = Some v"
  shows "vs = takeWhile (\<lambda>v. user v \<noteq> u) vs @ v # tl (dropWhile (\<lambda>v. user v \<noteq> u) vs)"
proof -
  from assms obtain i where i: "findIndex (\<lambda>v. user v = u) vs = Some i" "vs ! i = v"
    by (auto simp: find_findIndex)
  show ?thesis using findIndex_decomp[OF i(1)] i(2) by simp
qed

text \<open>
  C1. The vote mutation has exactly three cases, decided by the first entry of the array
  whose user is the voter (\<^verbatim>\<open>findIndex\<close>). With no such entry, the entry
  \<open>{user, type}\<close> is pushed at the end. With such an entry \<open>v\<close>, the array is
  \<open>before @ v # after\<close> where no entry of \<open>before\<close> is the voter's; when \<open>v\<close> has the
  requested type the result is \<open>before @ after\<close> (the entry is removed), otherwise it is
  \<open>before @ v\<lparr>type := t\<rparr> # after\<close> (only the type field is replaced). The function is
  total: every array, user and type falls in one of the three cases.
\<close>

theorem applyVote_three_cases:
  "(find (\<lambda>v. user v = u) vs = None \<longrightarrow>
      applyVote vs u t = vs @ [\<lparr>user = u, type = t\<rparr>])
   \<and> (\<forall>v. find (\<lambda>v. user v = u) vs = Some v \<and> type v = t \<longrightarrow>
         vs = takeWhile (\<lambda>v. user v \<noteq> u) vs @ v # tl (dropWhile (\<lambda>v. user v \<noteq> u) vs)
         \<and> applyVote vs u t =
             takeWhile (\<lambda>v. user v \<noteq> u) vs @ tl (dropWhile (\<lambda>v. user v \<noteq> u) vs))
   \<and> (\<forall>v. find (\<lambda>v. user v = u) vs = Some v \<and> type v \<noteq> t \<longrightarrow>
         vs = takeWhile (\<lambda>v. user v \<noteq> u) vs @ v # tl (dropWhile (\<lambda>v. user v \<noteq> u) vs)
         \<and> applyVote vs u t =
             takeWhile (\<lambda>v. user v \<noteq> u) vs
             @ v\<lparr>type := t\<rparr> # tl (dropWhile (\<lambda>v. user v \<noteq> u) vs))"
proof (intro conjI allI impI)
  assume "find (\<lambda>v. user v = u) vs = None"
  then show "applyVote vs u t = vs @ [\<lparr>user = u, type = t\<rparr>]" by (rule applyVote_absent)
next
  fix v assume a: "find (\<lambda>v. user v = u) vs = Some v \<and> type v = t"
  then show "vs = takeWhile (\<lambda>v. user v \<noteq> u) vs @ v # tl (dropWhile (\<lambda>v. user v \<noteq> u) vs)"
    by (intro find_decomp) simp
  from a show "applyVote vs u t =
             takeWhile (\<lambda>v. user v \<noteq> u) vs @ tl (dropWhile (\<lambda>v. user v \<noteq> u) vs)"
    by (intro applyVote_same[of u vs v]) simp_all
next
  fix v assume a: "find (\<lambda>v. user v = u) vs = Some v \<and> type v \<noteq> t"
  then show "vs = takeWhile (\<lambda>v. user v \<noteq> u) vs @ v # tl (dropWhile (\<lambda>v. user v \<noteq> u) vs)"
    by (intro find_decomp) simp
  from a show "applyVote vs u t =
             takeWhile (\<lambda>v. user v \<noteq> u) vs
             @ v\<lparr>type := t\<rparr> # tl (dropWhile (\<lambda>v. user v \<noteq> u) vs)"
    by (intro applyVote_other) simp_all
qed

theorem applyVote_three_cases_witness:
  "applyVote [\<lparr>user = ''u2'', type = ''downvote''\<rparr>] ''u1'' ''upvote''
     = [\<lparr>user = ''u2'', type = ''downvote''\<rparr>, \<lparr>user = ''u1'', type = ''upvote''\<rparr>]
   \<and> applyVote [\<lparr>user = ''u2'', type = ''downvote''\<rparr>, \<lparr>user = ''u1'', type = ''upvote''\<rparr>]
        ''u1'' ''upvote''
     = [\<lparr>user = ''u2'', type = ''downvote''\<rparr>]
   \<and> applyVote [\<lparr>user = ''u2'', type = ''downvote''\<rparr>, \<lparr>user = ''u1'', type = ''upvote''\<rparr>]
        ''u1'' ''downvote''
     = [\<lparr>user = ''u2'', type = ''downvote''\<rparr>, \<lparr>user = ''u1'', type = ''downvote''\<rparr>]"
  using applyVote_three_cases[of "''u1''" "[\<lparr>user = ''u2'', type = ''downvote''\<rparr>]" "''upvote''"]
        applyVote_three_cases[of "''u1''"
          "[\<lparr>user = ''u2'', type = ''downvote''\<rparr>, \<lparr>user = ''u1'', type = ''upvote''\<rparr>]" "''upvote''"]
        applyVote_three_cases[of "''u1''"
          "[\<lparr>user = ''u2'', type = ''downvote''\<rparr>, \<lparr>user = ''u1'', type = ''upvote''\<rparr>]" "''downvote''"]
  by simp

subsection \<open>The search through the reply forest\<close>

text \<open>The guard on \<^verbatim>\<open>reply.replies.length\<close> only skips a call that would return \<open>False\<close>.\<close>

lemma findAndVoteReply_Cons:
  "findAndVoteReply (Reply i c vs rs # rest) rid u t =
     (if i = rid then (True, Reply i c (applyVote vs u t) rs # rest)
      else if fst (findAndVoteReply rs rid u t)
        then (True, Reply i c vs (snd (findAndVoteReply rs rid u t)) # rest)
        else (fst (findAndVoteReply rest rid u t),
              Reply i c vs rs # snd (findAndVoteReply rest rid u t)))"
  by (cases rs) (simp_all split: prod.splits bool.splits)

lemma findIndex_append:
  "findIndex P (xs @ ys) =
     (case findIndex P xs of
        Some i \<Rightarrow> Some i
      | None \<Rightarrow> map_option (\<lambda>j. length xs + j) (findIndex P ys))"
proof (induction xs)
  case Nil
  show ?case by (cases "findIndex P ys") simp_all
next
  case (Cons x xs)
  then show ?case
    by (cases "findIndex P xs"; cases "findIndex P ys") simp_all
qed

lemma findAndVoteReply_found:
  "fst (findAndVoteReply rs rid u t) \<longleftrightarrow> findIndex (\<lambda>r. reply_id r = rid) (preorder rs) \<noteq> None"
  by (induction rs rule: preorder.induct)
     (simp_all del: findAndVoteReply.simps(2) add: findAndVoteReply_Cons findIndex_append split: option.splits)

lemma findAndVoteReply_unchanged:
  "\<not> fst (findAndVoteReply rs rid u t) \<Longrightarrow> snd (findAndVoteReply rs rid u t) = rs"
  by (induction rs rule: preorder.induct)
     (simp_all del: findAndVoteReply.simps(2) add: findAndVoteReply_Cons split: if_splits)

lemma findAndVoteReply_shape:
  "map eraseVotes (snd (findAndVoteReply rs rid u t)) = map eraseVotes rs"
  by (induction rs rule: preorder.induct)
     (simp_all del: findAndVoteReply.simps(2) add: findAndVoteReply_Cons)

lemma findAndVoteReply_length:
  "length (preorder (snd (findAndVoteReply rs rid u t))) = length (preorder rs)"
  by (induction rs rule: preorder.induct)
     (simp_all del: findAndVoteReply.simps(2) add: findAndVoteReply_Cons)

lemma findAndVoteReply_votes:
  "findIndex (\<lambda>r. reply_id r = rid) (preorder rs) = Some k \<Longrightarrow>
   map reply_votes (preorder (snd (findAndVoteReply rs rid u t)))
     = (map reply_votes (preorder rs))[k := applyVote (reply_votes (preorder rs ! k)) u t]"
proof (induction rs arbitrary: k rule: preorder.induct)
  case 1
  then show ?case by simp
next
  case (2 i c vs rs rest)
  show ?case
  proof (cases "i = rid")
    case True
    with 2 show ?thesis by (simp del: findAndVoteReply.simps(2) add: findAndVoteReply_Cons)
  next
    case ne: False
    show ?thesis
    proof (cases "findIndex (\<lambda>r. reply_id r = rid) (preorder rs)")
      case None
      with 2(3) ne obtain j where j: "findIndex (\<lambda>r. reply_id r = rid) (preorder rest) = Some j"
        "k = Suc (length (preorder rs) + j)"
        by (auto simp: findIndex_append)
      have nf: "\<not> fst (findAndVoteReply rs rid u t)"
        using None by (simp add: findAndVoteReply_found)
      show ?thesis using ne nf j 2(2)[OF j(1)]
        by (simp del: findAndVoteReply.simps(2) add: findAndVoteReply_Cons list_update_append nth_append)
    next
      case (Some j)
      with 2(3) ne have k: "k = Suc j" by (simp add: findIndex_append)
      have f: "fst (findAndVoteReply rs rid u t)"
        using Some by (simp add: findAndVoteReply_found)
      have lt: "j < length (preorder rs)" using Some by (rule findIndex_Some_lt)
      show ?thesis using ne f k lt 2(1)[OF Some]
        by (simp del: findAndVoteReply.simps(2) add: findAndVoteReply_Cons list_update_append nth_append)
    qed
  qed
qed

lemma findIndex_SomeI:
  "k < length xs \<Longrightarrow> P (xs ! k) \<Longrightarrow> (\<forall>j<k. \<not> P (xs ! j)) \<Longrightarrow> findIndex P xs = Some k"
proof (induction xs arbitrary: k)
  case Nil
  then show ?case by simp
next
  case (Cons x xs)
  show ?case
  proof (cases k)
    case 0
    with Cons.prems show ?thesis by simp
  next
    case (Suc m)
    have "\<not> P x" using Cons.prems(3) Suc by auto
    moreover have "findIndex P xs = Some m"
      using Cons.prems Suc by (intro Cons.IH) auto
    ultimately show ?thesis using Suc by simp
  qed
qed

subsection \<open>One vote per user\<close>

lemma applyVote_user_absent:
  "findIndex (\<lambda>v. user v = u) vs = None \<Longrightarrow> u \<notin> set (map user vs)"
  by (auto simp: findIndex_None_iff)

lemma applyVote_oneVotePerUser:
  assumes "oneVotePerUser vs"
  shows "oneVotePerUser (applyVote vs u t)"
proof (cases "findIndex (\<lambda>v. user v = u) vs")
  case None
  then show ?thesis using assms applyVote_user_absent[OF None]
    by (simp add: applyVote_def oneVotePerUser_def)
next
  case (Some i)
  have lt: "i < length vs" using Some by (rule findIndex_Some_lt)
  have dec: "vs = take i vs @ vs ! i # drop (Suc i) vs"
    using lt by (rule id_take_nth_drop)
  have d: "distinct (map user (take i vs) @ user (vs ! i) # map user (drop (Suc i) vs))"
    using assms dec unfolding oneVotePerUser_def by (metis list.simps(9) map_append)
  have same: "distinct (map user (splice1 i vs))"
    using d by (simp add: splice1_def)
  have "map user (vs[i := (vs ! i)\<lparr>type := t\<rparr>]) = map user vs"
    by (simp add: map_update list_update_same_conv lt)
  then have other: "distinct (map user (vs[i := (vs ! i)\<lparr>type := t\<rparr>]))"
    using assms by (simp add: oneVotePerUser_def)
  show ?thesis using Some same other
    by (simp add: applyVote_def oneVotePerUser_def Let_def)
qed

lemma list_all_update:
  "list_all P xs \<Longrightarrow> P x \<Longrightarrow> list_all P (xs[k := x])"
  by (induction xs arbitrary: k) (auto split: nat.splits)

lemma findAndVoteReply_inv:
  assumes "list_all (\<lambda>r. oneVotePerUser (reply_votes r)) (preorder rs)"
  shows "list_all (\<lambda>r. oneVotePerUser (reply_votes r)) (preorder (snd (findAndVoteReply rs rid u t)))"
proof (cases "findIndex (\<lambda>r. reply_id r = rid) (preorder rs)")
  case None
  then have "snd (findAndVoteReply rs rid u t) = rs"
    by (intro findAndVoteReply_unchanged) (simp add: findAndVoteReply_found)
  then show ?thesis using assms by simp
next
  case (Some k)
  have a: "list_all oneVotePerUser (map reply_votes (preorder rs))"
    using assms by (simp add: list_all_iff)
  have lt: "k < length (preorder rs)" using Some by (rule findIndex_Some_lt)
  have "oneVotePerUser (reply_votes (preorder rs ! k))"
    using assms lt by (simp add: list_all_length)
  then have "oneVotePerUser (applyVote (reply_votes (preorder rs ! k)) u t)"
    by (rule applyVote_oneVotePerUser)
  with a have "list_all oneVotePerUser
      ((map reply_votes (preorder rs))[k := applyVote (reply_votes (preorder rs ! k)) u t])"
    by (rule list_all_update)
  then have "list_all oneVotePerUser
      (map reply_votes (preorder (snd (findAndVoteReply rs rid u t))))"
    by (simp add: findAndVoteReply_votes[OF Some])
  then show ?thesis by (simp add: list_all_iff)
qed

subsection \<open>The branches of the two handlers\<close>

lemma validationResult_vote_type:
  "t = ''upvote'' \<or> t = ''downvote'' \<Longrightarrow> validationResult (JStr t) = Inr (JStr t)"
  by (auto simp: validationResult_def)

lemma validationResult_Inr_same: "validationResult rt = Inr ty \<Longrightarrow> ty = rt"
  by (simp add: validationResult_def split: list.splits)

lemma voteThread_invalid:
  "validationResult rt = Inl es \<Longrightarrow>
   voteThread d tid u rt = (\<lparr>status = 400, body = [(''errors'', JArr es)]\<rparr>, d)"
  by (simp add: voteThread_def)

lemma voteThread_no_thread:
  "validationResult rt = Inr ty \<Longrightarrow> threads d tid = None \<Longrightarrow>
   voteThread d tid u rt = (\<lparr>status = 404, body = [(''message'', JStr ''Thread not found'')]\<rparr>, d)"
  by (simp add: voteThread_def)

lemma voteThread_db:
  "validationResult rt = Inr (JStr t) \<Longrightarrow> threads d tid = Some thr \<Longrightarrow>
   snd (voteThread d tid u rt) =
     d\<lparr>threads := (threads d)(tid \<mapsto> thr\<lparr>votes := applyVote (votes thr) u t\<rparr>),
       users := findByIdAndUpdate (users d) (author thr)
                  (max 0 (voteCount (applyVote (votes thr) u t) * 10))\<rparr>"
  by (simp add: voteThread_def Let_def)

lemma voteThread_rejected:
  "validationResult rt = Inr ty \<Longrightarrow> threads d tid = Some thr \<Longrightarrow> \<forall>t. ty \<noteq> JStr t \<Longrightarrow>
   voteThread d tid u rt = (saveRejected, d)"
  by (cases ty) (simp_all add: voteThread_def)

lemma voteThread_db_cases:
  "snd (voteThread d tid u rt) = d
   \<or> (\<exists>t thr. validationResult rt = Inr (JStr t) \<and> threads d tid = Some thr
         \<and> snd (voteThread d tid u rt) =
             d\<lparr>threads := (threads d)(tid \<mapsto> thr\<lparr>votes := applyVote (votes thr) u t\<rparr>),
               users := findByIdAndUpdate (users d) (author thr)
                          (max 0 (voteCount (applyVote (votes thr) u t) * 10))\<rparr>)"
proof (cases "validationResult rt")
  case (Inl es)
  then show ?thesis by (simp add: voteThread_invalid)
next
  case (Inr ty)
  show ?thesis
  proof (cases "threads d tid")
    case None
    then show ?thesis using Inr by (simp add: voteThread_no_thread)
  next
    case (Some thr)
    show ?thesis
    proof (cases "\<exists>t. ty = JStr t")
      case True
      then obtain t where "ty = JStr t" by (elim exE)
      then show ?thesis using Inr Some voteThread_db[of rt t d tid thr u] by simp
    next
      case False
      then show ?thesis using Inr Some by (simp add: voteThread_rejected)
    qed
  qed
qed

lemma voteReply_invalid:
  "validationResult rt = Inl es \<Longrightarrow>
   voteReply d tid rid u rt = (\<lparr>status = 400, body = [(''errors'', JArr es)]\<rparr>, d)"
  by (simp add: voteReply_def)

lemma voteReply_no_thread:
  "validationResult rt = Inr ty \<Longrightarrow> threads d tid = None \<Longrightarrow>
   voteReply d tid rid u rt = (\<lparr>status = 404, body = [(''message'', JStr ''Thread not found'')]\<rparr>, d)"
  by (simp add: voteReply_def)

lemma voteReply_no_reply:
  "validationResult rt = Inr (JStr t) \<Longrightarrow> threads d tid = Some thr \<Longrightarrow>
   \<not> fst (findAndVoteReply (replies thr) rid u t) \<Longrightarrow>
   voteReply d tid rid u rt = (\<lparr>status = 404, body = [(''message'', JStr ''Reply not found'')]\<rparr>, d)"
  by (cases "findAndVoteReply (replies thr) rid u t") (simp add: voteReply_def)

lemma voteReply_ok:
  "validationResult rt = Inr (JStr t) \<Longrightarrow> threads d tid = Some thr \<Longrightarrow>
   fst (findAndVoteReply (replies thr) rid u t) \<Longrightarrow>
   voteReply d tid rid u rt =
     (\<lparr>status = 200, body = [(''message'', JStr ''Vote recorded successfully'')]\<rparr>,
      d\<lparr>threads := (threads d)(tid \<mapsto>
           thr\<lparr>replies := snd (findAndVoteReply (replies thr) rid u t)\<rparr>)\<rparr>)"
  by (cases "findAndVoteReply (replies thr) rid u t") (simp add: voteReply_def)

lemma voteReply_rejected:
  "validationResult rt = Inr ty \<Longrightarrow> threads d tid = Some thr \<Longrightarrow> \<forall>t. ty \<noteq> JStr t \<Longrightarrow>
   voteReply d tid rid u rt =
     (if findReply (replies thr) rid then saveRejected
      else \<lparr>status = 404, body = [(''message'', JStr ''Reply not found'')]\<rparr>, d)"
  by (cases ty) (simp_all add: voteReply_def)

text \<open>The walk of \<open>findReply\<close> is the walk of \<^verbatim>\<open>findAndVoteReply\<close>.\<close>

lemma findReply_findAndVoteReply:
  "findReply rs rid = fst (findAndVoteReply rs rid u t)"
  by (induction rs rule: preorder.induct)
     (simp_all del: findAndVoteReply.simps(2) add: findAndVoteReply_Cons)

lemma count_list_map_filter:
  "count_list (map f xs) y = length (filter (\<lambda>x. f x = y) xs)"
  by (induction xs) auto

subsection \<open>The thread handler: response and reputation\<close>

text \<open>
  C2. A successful thread vote answers with the net score of the thread after the mutation
  and with the user's resulting vote; a first upvote on a thread without votes should
  answer \<open>voteCount = 1\<close> and \<open>userVote = upvote\<close>. Evaluated on the thread \<open>T\<close> of
  \<open>db0\<close> (no votes) for the voter \<open>u1\<close>: the vote is stored and the count is \<open>1\<close>, but
  the \<open>userVote\<close> of the response is \<^verbatim>\<open>null\<close>, because line 63 decides on the index found
  before the mutation.
\<close>

theorem voteThread_first_vote_userVote_null:
  "fst (voteThread db0 ''T'' ''u1'' (JStr ''upvote'')) =
     \<lparr>status = 200,
      body = [(''message'', JStr ''Vote recorded successfully''),
              (''voteCount'', JNum 1),
              (''userVote'', JNull)]\<rparr>
   \<and> map_option votes (threads (snd (voteThread db0 ''T'' ''u1'' (JStr ''upvote''))) ''T'')
       = Some [\<lparr>user = ''u1'', type = ''upvote''\<rparr>]"
  by (simp add: voteThread_def db0_def thread0_def validationResult_def applyVote_def
        voteCount_def Let_def)

text \<open>
  C3. After a thread vote that passed validation and found its thread, the stored thread
  carries the mutated vote array, and the reputation of the thread's author is
  \<open>max 0 ((upvotes - downvotes) * 10)\<close>, counted over that whole mutated array. The
  author's other fields and every other account are unchanged; when the author has no
  account, none is created.
\<close>

theorem voteThread_reputation:
  assumes "validationResult rt = Inr (JStr t)" and "threads d tid = Some thr"
  shows "threads (snd (voteThread d tid u rt)) tid
           = Some (thr\<lparr>votes := applyVote (votes thr) u t\<rparr>)
         \<and> (\<forall>a. users d (author thr) = Some a \<longrightarrow>
                users (snd (voteThread d tid u rt)) (author thr)
                  = Some (a\<lparr>reputation :=
                      max 0 ((int (count_list (map type (applyVote (votes thr) u t)) ''upvote'')
                              - int (count_list (map type (applyVote (votes thr) u t)) ''downvote''))
                             * 10)\<rparr>))
         \<and> (users d (author thr) = None \<longrightarrow>
                users (snd (voteThread d tid u rt)) (author thr) = None)
         \<and> (\<forall>k. k \<noteq> author thr \<longrightarrow> users (snd (voteThread d tid u rt)) k = users d k)"
  using assms
  by (simp add: voteThread_db findByIdAndUpdate_def count_list_map_filter voteCount_def
        split: option.splits)

theorem voteThread_reputation_witness:
  "validationResult (JStr ''upvote'') = Inr (JStr ''upvote'')
   \<and> threads db1 ''T'' = Some (thread0\<lparr>votes := votes3\<rparr>)
   \<and> users db1 ''a1'' = Some \<lparr>username = ''alice'', reputation = 0\<rparr>
   \<and> users (snd (voteThread db1 ''T'' ''u4'' (JStr ''upvote''))) ''a1''
       = Some \<lparr>username = ''alice'', reputation = 20\<rparr>"
proof -
  have v: "validationResult (JStr ''upvote'') = Inr (JStr ''upvote'')"
    by (simp add: validationResult_def)
  have th: "threads db1 ''T'' = Some (thread0\<lparr>votes := votes3\<rparr>)"
    by (simp add: db1_def)
  have av: "applyVote votes3 ''u4'' ''upvote'' = votes3 @ [\<lparr>user = ''u4'', type = ''upvote''\<rparr>]"
    by (simp add: applyVote_def votes3_def)
  have au: "author (thread0\<lparr>votes := votes3\<rparr>) = ''a1''"
    by (simp add: thread0_def)
  have us: "users db1 ''a1'' = Some \<lparr>username = ''alice'', reputation = 0\<rparr>"
    by (simp add: db1_def db0_def)
  note T = voteThread_reputation[OF v th, of "''u4''"]
  have "users (snd (voteThread db1 ''T'' ''u4'' (JStr ''upvote''))) ''a1''
        = Some (\<lparr>username = ''alice'', reputation = 0\<rparr>\<lparr>reputation :=
             max 0 ((int (count_list (map type (applyVote votes3 ''u4'' ''upvote'')) ''upvote'')
                     - int (count_list (map type (applyVote votes3 ''u4'' ''upvote'')) ''downvote''))
                    * 10)\<rparr>)"
    using T[THEN conjunct2, THEN conjunct1, rule_format, of "\<lparr>username = ''alice'', reputation = 0\<rparr>"]
          us au by simp
  then have "users (snd (voteThread db1 ''T'' ''u4'' (JStr ''upvote''))) ''a1''
        = Some \<lparr>username = ''alice'', reputation = 20\<rparr>"
    unfolding av by (simp add: votes3_def)
  with v th us show ?thesis by simp
qed

lemma voteReply_db_cases:
  "snd (voteReply d tid rid u rt) = d
   \<or> (\<exists>t thr. validationResult rt = Inr (JStr t) \<and> threads d tid = Some thr
         \<and> fst (findAndVoteReply (replies thr) rid u t)
         \<and> snd (voteReply d tid rid u rt)
             = d\<lparr>threads := (threads d)(tid \<mapsto>
                  thr\<lparr>replies := snd (findAndVoteReply (replies thr) rid u t)\<rparr>)\<rparr>)"
proof (cases "validationResult rt")
  case (Inl es)
  then show ?thesis by (simp add: voteReply_invalid)
next
  case (Inr ty)
  show ?thesis
  proof (cases "threads d tid")
    case None
    then show ?thesis using Inr by (simp add: voteReply_no_thread)
  next
    case (Some thr)
    show ?thesis
    proof (cases "\<exists>t. ty = JStr t")
      case False
      then show ?thesis using Inr Some by (simp add: voteReply_rejected)
    next
      case True
      then obtain t where ty: "ty = JStr t" by (elim exE)
      show ?thesis
      proof (cases "fst (findAndVoteReply (replies thr) rid u t)")
        case True
        then show ?thesis using Inr Some ty voteReply_ok[of rt t d tid thr rid u] by simp
      next
        case False
        then show ?thesis using Inr Some ty voteReply_no_reply[of rt t d tid thr rid u] by simp
      qed
    qed
  qed
qed

subsection \<open>The invariant of the vote arrays\<close>

text \<open>
  C4. At most one vote per user is an invariant of every vote operation. The mutation
  keeps it on the array it is applied to; and when the thread array and every reply array
  of every stored thread has at most one entry per user, the same holds of every stored
  thread after a thread vote and after a reply vote, whatever the request.
\<close>

theorem vote_preserves_oneVotePerUser:
  "(oneVotePerUser vs \<longrightarrow> oneVotePerUser (applyVote vs u t))
   \<and> ((\<forall>k thr. threads d k = Some thr \<longrightarrow> threadInv thr) \<longrightarrow>
        (\<forall>k thr. threads (snd (voteThread d tid u rt)) k = Some thr \<longrightarrow> threadInv thr)
        \<and> (\<forall>k thr. threads (snd (voteReply d tid rid u rt)) k = Some thr \<longrightarrow> threadInv thr))"
proof (intro conjI impI allI)
  assume "oneVotePerUser vs"
  then show "oneVotePerUser (applyVote vs u t)" by (rule applyVote_oneVotePerUser)
next
  fix k thr'
  assume inv: "\<forall>k thr. threads d k = Some thr \<longrightarrow> threadInv thr"
    and k: "threads (snd (voteThread d tid u rt)) k = Some thr'"
  from voteThread_db_cases[of d tid u rt] show "threadInv thr'"
  proof
    assume "snd (voteThread d tid u rt) = d"
    then have "threads d k = Some thr'" using k by simp
    then show ?thesis using inv by (simp only:)
  next
    assume "\<exists>t thr. validationResult rt = Inr (JStr t) \<and> threads d tid = Some thr
         \<and> snd (voteThread d tid u rt) =
             d\<lparr>threads := (threads d)(tid \<mapsto> thr\<lparr>votes := applyVote (votes thr) u t\<rparr>),
               users := findByIdAndUpdate (users d) (author thr)
                          (max 0 (voteCount (applyVote (votes thr) u t) * 10))\<rparr>"
    then obtain t' thr where Some: "threads d tid = Some thr"
      and eq: "snd (voteThread d tid u rt) =
             d\<lparr>threads := (threads d)(tid \<mapsto> thr\<lparr>votes := applyVote (votes thr) u t'\<rparr>),
               users := findByIdAndUpdate (users d) (author thr)
                          (max 0 (voteCount (applyVote (votes thr) u t') * 10))\<rparr>"
      by (elim exE conjE)
    have i0: "threadInv thr" using inv Some by (simp only:)
    show ?thesis
    proof (cases "k = tid")
      case True
      then have "thr' = thr\<lparr>votes := applyVote (votes thr) u t'\<rparr>"
        using k by (simp add: eq)
      then show ?thesis using i0 applyVote_oneVotePerUser[of "votes thr" u t']
        by (simp add: threadInv_def)
    next
      case False
      then have "threads d k = Some thr'"
        using k by (simp add: eq)
      then show ?thesis using inv by (simp only:)
    qed
  qed
next
  fix k thr'
  assume inv: "\<forall>k thr. threads d k = Some thr \<longrightarrow> threadInv thr"
    and k: "threads (snd (voteReply d tid rid u rt)) k = Some thr'"
  from voteReply_db_cases[of d tid rid u rt] show "threadInv thr'"
  proof
    assume "snd (voteReply d tid rid u rt) = d"
    then have "threads d k = Some thr'" using k by simp
    then show ?thesis using inv by (simp only:)
  next
    assume "\<exists>t thr. validationResult rt = Inr (JStr t) \<and> threads d tid = Some thr
         \<and> fst (findAndVoteReply (replies thr) rid u t)
         \<and> snd (voteReply d tid rid u rt)
             = d\<lparr>threads := (threads d)(tid \<mapsto>
                  thr\<lparr>replies := snd (findAndVoteReply (replies thr) rid u t)\<rparr>)\<rparr>"
    then obtain t' thr where Some: "threads d tid = Some thr"
      and eq: "snd (voteReply d tid rid u rt)
             = d\<lparr>threads := (threads d)(tid \<mapsto>
                  thr\<lparr>replies := snd (findAndVoteReply (replies thr) rid u t')\<rparr>)\<rparr>"
      by (elim exE conjE)
    have i0: "threadInv thr" using inv Some by (simp only:)
    show ?thesis
    proof (cases "k = tid")
      case True
      then have "thr' = thr\<lparr>replies := snd (findAndVoteReply (replies thr) rid u t')\<rparr>"
        using k by (simp add: eq)
      then show ?thesis using i0 findAndVoteReply_inv[of "replies thr" rid u t']
        by (simp add: threadInv_def)
    next
      case False
      then have "threads d k = Some thr'"
        using k by (simp add: eq)
      then show ?thesis using inv by (simp only:)
    qed
  qed
qed

theorem vote_preserves_oneVotePerUser_witness:
  "oneVotePerUser votes3
   \<and> oneVotePerUser (applyVote votes3 ''u2'' ''upvote'')
   \<and> threadInv (thread0\<lparr>votes := votes3\<rparr>)
   \<and> (case threads (snd (voteThread db1 ''T'' ''u2'' (JStr ''upvote''))) ''T'' of
         Some thr \<Rightarrow> threadInv thr | None \<Rightarrow> False)
   \<and> (case threads (snd (voteReply db1 ''T'' ''C'' ''u2'' (JStr ''upvote''))) ''T'' of
         Some thr \<Rightarrow> threadInv thr | None \<Rightarrow> False)"
proof -
  note T = vote_preserves_oneVotePerUser[of votes3 "''u2''" "''upvote''" db1 "''T''"
             "JStr ''upvote''" "''C''"]
  have v: "validationResult (JStr ''upvote'') = Inr (JStr ''upvote'')"
    by (simp add: validationResult_def)
  have th: "threads db1 ''T'' = Some (thread0\<lparr>votes := votes3\<rparr>)"
    by (simp add: db1_def)
  have o: "oneVotePerUser votes3"
    by (simp add: oneVotePerUser_def votes3_def)
  have i: "threadInv (thread0\<lparr>votes := votes3\<rparr>)"
    using o by (simp add: threadInv_def thread0_def oneVotePerUser_def)
  have inv: "\<forall>k thr. threads db1 k = Some thr \<longrightarrow> threadInv thr"
    using i by (simp add: db1_def)
  have f: "fst (findAndVoteReply (replies (thread0\<lparr>votes := votes3\<rparr>)) ''C'' ''u2'' ''upvote'')"
    by (simp add: thread0_def)
  have a: "threads (snd (voteThread db1 ''T'' ''u2'' (JStr ''upvote''))) ''T''
           = Some (thread0\<lparr>votes := applyVote votes3 ''u2'' ''upvote''\<rparr>)"
    by (simp add: voteThread_db[OF v th])
  have b: "threads (snd (voteReply db1 ''T'' ''C'' ''u2'' (JStr ''upvote''))) ''T''
           = Some (thread0\<lparr>votes := votes3, replies :=
               snd (findAndVoteReply (replies (thread0\<lparr>votes := votes3\<rparr>)) ''C'' ''u2'' ''upvote'')\<rparr>)"
    by (simp add: voteReply_ok[OF v th f])
  have 1: "oneVotePerUser (applyVote votes3 ''u2'' ''upvote'')"
    using T o by blast
  have 2: "threadInv (thread0\<lparr>votes := applyVote votes3 ''u2'' ''upvote''\<rparr>)"
    using T[THEN conjunct2, THEN mp, OF inv, THEN conjunct1, rule_format, OF a] .
  have 3: "threadInv (thread0\<lparr>votes := votes3, replies :=
               snd (findAndVoteReply (replies (thread0\<lparr>votes := votes3\<rparr>)) ''C'' ''u2'' ''upvote'')\<rparr>)"
    using T[THEN conjunct2, THEN mp, OF inv, THEN conjunct2, rule_format, OF b] .
  show ?thesis using o i 1 2 3 by (simp only: a b option.case)
qed

subsection \<open>What a reply vote leaves alone\<close>

lemma findIndex_None_image:
  "findIndex (\<lambda>r. f r = x) xs = None \<longleftrightarrow> x \<notin> f ` set xs"
  by (auto simp: findIndex_None_iff)

lemma findAndVoteReply_not_found:
  "rid \<notin> reply_id ` set (preorder rs) \<Longrightarrow> findAndVoteReply rs rid u t = (False, rs)"
proof -
  assume "rid \<notin> reply_id ` set (preorder rs)"
  then have n: "\<not> fst (findAndVoteReply rs rid u t)"
    by (simp add: findAndVoteReply_found findIndex_None_image)
  then have "snd (findAndVoteReply rs rid u t) = rs" by (rule findAndVoteReply_unchanged)
  with n show ?thesis by (simp add: prod_eq_iff)
qed

lemma findAndVoteReply_changed_votes:
  assumes "j < length (preorder rs)"
    and "reply_votes (preorder (snd (findAndVoteReply rs rid u t)) ! j)
           \<noteq> reply_votes (preorder rs ! j)"
  shows "findIndex (\<lambda>r. reply_id r = rid) (preorder rs) = Some j"
proof (cases "findIndex (\<lambda>r. reply_id r = rid) (preorder rs)")
  case None
  then have "snd (findAndVoteReply rs rid u t) = rs"
    by (intro findAndVoteReply_unchanged) (simp add: findAndVoteReply_found)
  with assms(2) show ?thesis by simp
next
  case (Some k)
  have "reply_votes (preorder (snd (findAndVoteReply rs rid u t)) ! j)
        = map reply_votes (preorder (snd (findAndVoteReply rs rid u t))) ! j"
    using assms(1) by (simp add: findAndVoteReply_length)
  also have "\<dots> = (map reply_votes (preorder rs))
                     [k := applyVote (reply_votes (preorder rs ! k)) u t] ! j"
    by (simp only: findAndVoteReply_votes[OF Some])
  finally have "k = j" using assms by (cases "k = j") simp_all
  with Some show ?thesis by simp
qed

lemma reply_handler_frame:
  "users (snd (voteReply d tid rid u rt)) = users d
   \<and> (\<forall>k. k \<noteq> tid \<longrightarrow> threads (snd (voteReply d tid rid u rt)) k = threads d k)
   \<and> (threads d tid = None \<longrightarrow> threads (snd (voteReply d tid rid u rt)) tid = None)
   \<and> (\<forall>thr. threads d tid = Some thr \<longrightarrow>
         (\<exists>rs'. threads (snd (voteReply d tid rid u rt)) tid = Some (thr\<lparr>replies := rs'\<rparr>)
            \<and> map eraseVotes rs' = map eraseVotes (replies thr)
            \<and> length (preorder rs') = length (preorder (replies thr))
            \<and> (\<forall>j < length (preorder (replies thr)).
                  reply_votes (preorder rs' ! j) \<noteq> reply_votes (preorder (replies thr) ! j) \<longrightarrow>
                  reply_id (preorder (replies thr) ! j) = rid
                  \<and> (\<forall>i<j. reply_id (preorder (replies thr) ! i) \<noteq> rid))))"
proof -
  from voteReply_db_cases[of d tid rid u rt] show ?thesis
  proof
    assume same: "snd (voteReply d tid rid u rt) = d"
    have "\<And>thr. threads d tid = Some thr \<Longrightarrow>
            threads d tid = Some (thr\<lparr>replies := replies thr\<rparr>)" by simp
    then show ?thesis unfolding same by (intro conjI allI impI; (simp; fail)?) blast
  next
    assume "\<exists>t thr. validationResult rt = Inr (JStr t) \<and> threads d tid = Some thr
         \<and> fst (findAndVoteReply (replies thr) rid u t)
         \<and> snd (voteReply d tid rid u rt)
             = d\<lparr>threads := (threads d)(tid \<mapsto>
                  thr\<lparr>replies := snd (findAndVoteReply (replies thr) rid u t)\<rparr>)\<rparr>"
    then obtain t thr where th: "threads d tid = Some thr"
      and eq: "snd (voteReply d tid rid u rt)
             = d\<lparr>threads := (threads d)(tid \<mapsto>
                  thr\<lparr>replies := snd (findAndVoteReply (replies thr) rid u t)\<rparr>)\<rparr>"
      by (elim exE conjE)
    let ?rs' = "snd (findAndVoteReply (replies thr) rid u t)"
    have fr: "\<forall>j < length (preorder (replies thr)).
                  reply_votes (preorder ?rs' ! j) \<noteq> reply_votes (preorder (replies thr) ! j) \<longrightarrow>
                  reply_id (preorder (replies thr) ! j) = rid
                  \<and> (\<forall>i<j. reply_id (preorder (replies thr) ! i) \<noteq> rid)"
    proof (intro allI impI)
      fix j assume "j < length (preorder (replies thr))"
        and "reply_votes (preorder ?rs' ! j) \<noteq> reply_votes (preorder (replies thr) ! j)"
      then have fi: "findIndex (\<lambda>r. reply_id r = rid) (preorder (replies thr)) = Some j"
        by (rule findAndVoteReply_changed_votes)
      show "reply_id (preorder (replies thr) ! j) = rid
            \<and> (\<forall>i<j. reply_id (preorder (replies thr) ! i) \<noteq> rid)"
        using findIndex_Some_nth[OF fi] findIndex_Some_first[OF fi] by simp
    qed
    have "threads (snd (voteReply d tid rid u rt)) tid = Some (thr\<lparr>replies := ?rs'\<rparr>)
            \<and> map eraseVotes ?rs' = map eraseVotes (replies thr)
            \<and> length (preorder ?rs') = length (preorder (replies thr))
            \<and> (\<forall>j < length (preorder (replies thr)).
                  reply_votes (preorder ?rs' ! j) \<noteq> reply_votes (preorder (replies thr) ! j) \<longrightarrow>
                  reply_id (preorder (replies thr) ! j) = rid
                  \<and> (\<forall>i<j. reply_id (preorder (replies thr) ! i) \<noteq> rid))"
      using fr by (simp add: eq findAndVoteReply_shape findAndVoteReply_length)
    then have ex: "\<exists>rs'. threads (snd (voteReply d tid rid u rt)) tid = Some (thr\<lparr>replies := rs'\<rparr>)
            \<and> map eraseVotes rs' = map eraseVotes (replies thr)
            \<and> length (preorder rs') = length (preorder (replies thr))
            \<and> (\<forall>j < length (preorder (replies thr)).
                  reply_votes (preorder rs' ! j) \<noteq> reply_votes (preorder (replies thr) ! j) \<longrightarrow>
                  reply_id (preorder (replies thr) ! j) = rid
                  \<and> (\<forall>i<j. reply_id (preorder (replies thr) ! i) \<noteq> rid))"
      by (rule exI)
    have u: "users (snd (voteReply d tid rid u rt)) = users d" by (simp add: eq)
    have o: "\<forall>k. k \<noteq> tid \<longrightarrow> threads (snd (voteReply d tid rid u rt)) k = threads d k"
      by (simp add: eq)
    have n: "threads d tid = None \<longrightarrow> threads (snd (voteReply d tid rid u rt)) tid = None"
      using th by simp
    show ?thesis using u o n ex th by simp
  qed
qed


text \<open>
  C5. A reply vote touches nothing but the vote array of its target reply. Whatever the
  request, the accounts (and so every reputation) are as before, as is every other thread;
  the voted thread keeps its own vote array and its author; its reply forest keeps its
  shape, ids and contents; and the only reply whose vote array may differ from before is
  the first node in pre-order that carries the requested id.
\<close>

theorem voteReply_frame:
  "users (snd (voteReply d tid rid u rt)) = users d
   \<and> (\<forall>k. k \<noteq> tid \<longrightarrow> threads (snd (voteReply d tid rid u rt)) k = threads d k)
   \<and> (threads (snd (voteReply d tid rid u rt)) tid = None \<longleftrightarrow> threads d tid = None)
   \<and> (\<forall>thr thr'.
         threads d tid = Some thr \<and> threads (snd (voteReply d tid rid u rt)) tid = Some thr' \<longrightarrow>
           votes thr' = votes thr \<and> author thr' = author thr
           \<and> map eraseVotes (replies thr') = map eraseVotes (replies thr)
           \<and> length (preorder (replies thr')) = length (preorder (replies thr))
           \<and> (\<forall>j < length (preorder (replies thr)).
                 reply_votes (preorder (replies thr') ! j)
                   \<noteq> reply_votes (preorder (replies thr) ! j) \<longrightarrow>
                 reply_id (preorder (replies thr) ! j) = rid
                 \<and> (\<forall>i<j. reply_id (preorder (replies thr) ! i) \<noteq> rid)))"
proof (intro conjI allI impI)
  show "users (snd (voteReply d tid rid u rt)) = users d"
    using reply_handler_frame[of d tid rid u rt] by (rule conjunct1)
next
  fix k assume "k \<noteq> tid"
  then show "threads (snd (voteReply d tid rid u rt)) k = threads d k"
    using reply_handler_frame[of d tid rid u rt] by simp
next
  show "threads (snd (voteReply d tid rid u rt)) tid = None \<longleftrightarrow> threads d tid = None"
  proof (cases "threads d tid")
    case None
    then show ?thesis using reply_handler_frame[of d tid rid u rt] by simp
  next
    case (Some thr)
    from reply_handler_frame[of d tid rid u rt, THEN conjunct2, THEN conjunct2, THEN conjunct2,
           rule_format, OF Some]
    obtain rs' where "threads (snd (voteReply d tid rid u rt)) tid = Some (thr\<lparr>replies := rs'\<rparr>)"
      by (elim exE conjE)
    then show ?thesis using Some by simp
  qed
next
  fix thr thr'
  assume a: "threads d tid = Some thr \<and> threads (snd (voteReply d tid rid u rt)) tid = Some thr'"
  then have "\<exists>rs'. threads (snd (voteReply d tid rid u rt)) tid = Some (thr\<lparr>replies := rs'\<rparr>)
            \<and> map eraseVotes rs' = map eraseVotes (replies thr)
            \<and> length (preorder rs') = length (preorder (replies thr))
            \<and> (\<forall>j < length (preorder (replies thr)).
                  reply_votes (preorder rs' ! j) \<noteq> reply_votes (preorder (replies thr) ! j) \<longrightarrow>
                  reply_id (preorder (replies thr) ! j) = rid
                  \<and> (\<forall>i<j. reply_id (preorder (replies thr) ! i) \<noteq> rid))"
    using reply_handler_frame[of d tid rid u rt, THEN conjunct2, THEN conjunct2, THEN conjunct2,
            rule_format, of thr] by (elim conjE) simp
  then obtain rs' where eq: "threads (snd (voteReply d tid rid u rt)) tid = Some (thr\<lparr>replies := rs'\<rparr>)"
    and sh: "map eraseVotes rs' = map eraseVotes (replies thr)"
    and le: "length (preorder rs') = length (preorder (replies thr))"
    and fr: "\<forall>j < length (preorder (replies thr)).
                  reply_votes (preorder rs' ! j) \<noteq> reply_votes (preorder (replies thr) ! j) \<longrightarrow>
                  reply_id (preorder (replies thr) ! j) = rid
                  \<and> (\<forall>i<j. reply_id (preorder (replies thr) ! i) \<noteq> rid)"
    by (elim exE conjE)
  have t': "thr' = thr\<lparr>replies := rs'\<rparr>" using a eq by simp
  show "votes thr' = votes thr" by (simp add: t')
  show "author thr' = author thr" by (simp add: t')
  show "map eraseVotes (replies thr') = map eraseVotes (replies thr)" using sh by (simp add: t')
  show "length (preorder (replies thr')) = length (preorder (replies thr))"
    using le by (simp add: t')
  fix j
  assume j: "j < length (preorder (replies thr))"
    and ne: "reply_votes (preorder (replies thr') ! j) \<noteq> reply_votes (preorder (replies thr) ! j)"
  from ne have "reply_votes (preorder rs' ! j) \<noteq> reply_votes (preorder (replies thr) ! j)"
    by (simp add: t')
  with fr j have r: "reply_id (preorder (replies thr) ! j) = rid
                  \<and> (\<forall>i<j. reply_id (preorder (replies thr) ! i) \<noteq> rid)" by blast
  from r show "reply_id (preorder (replies thr) ! j) = rid" by (rule conjunct1)
  fix i assume "i < j"
  with r show "reply_id (preorder (replies thr) ! i) \<noteq> rid" by blast
qed

theorem voteReply_frame_witness:
  "threads db1 ''T'' = Some (thread0\<lparr>votes := votes3\<rparr>)
   \<and> users (snd (voteReply db1 ''T'' ''C'' ''u1'' (JStr ''upvote''))) = users db1
   \<and> threads (snd (voteReply db1 ''T'' ''C'' ''u1'' (JStr ''upvote''))) ''other''
       = threads db1 ''other''
   \<and> map_option votes (threads (snd (voteReply db1 ''T'' ''C'' ''u1'' (JStr ''upvote''))) ''T'')
       = Some votes3
   \<and> map_option (\<lambda>thr. map reply_votes (preorder (replies thr)))
        (threads (snd (voteReply db1 ''T'' ''C'' ''u1'' (JStr ''upvote''))) ''T'')
       = Some [[], [], [\<lparr>user = ''u2'', type = ''upvote''\<rparr>, \<lparr>user = ''u1'', type = ''upvote''\<rparr>], []]"
proof -
  note T = voteReply_frame[of db1 "''T''" "''C''" "''u1''" "JStr ''upvote''"]
  have v: "validationResult (JStr ''upvote'') = Inr (JStr ''upvote'')"
    by (simp add: validationResult_def)
  have th: "threads db1 ''T'' = Some (thread0\<lparr>votes := votes3\<rparr>)"
    by (simp add: db1_def)
  have f: "fst (findAndVoteReply (replies (thread0\<lparr>votes := votes3\<rparr>)) ''C'' ''u1'' ''upvote'')"
    by (simp add: thread0_def)
  have b: "threads (snd (voteReply db1 ''T'' ''C'' ''u1'' (JStr ''upvote''))) ''T''
           = Some (thread0\<lparr>votes := votes3, replies :=
               snd (findAndVoteReply (replies (thread0\<lparr>votes := votes3\<rparr>)) ''C'' ''u1'' ''upvote'')\<rparr>)"
    by (simp add: voteReply_ok[OF v th f])
  have 1: "users (snd (voteReply db1 ''T'' ''C'' ''u1'' (JStr ''upvote''))) = users db1"
    using T by (rule conjunct1)
  have 2: "threads (snd (voteReply db1 ''T'' ''C'' ''u1'' (JStr ''upvote''))) ''other''
       = threads db1 ''other''"
    using T[THEN conjunct2, THEN conjunct1, rule_format, of "''other''"] by simp
  have 3: "votes (thread0\<lparr>votes := votes3, replies :=
               snd (findAndVoteReply (replies (thread0\<lparr>votes := votes3\<rparr>)) ''C'' ''u1'' ''upvote'')\<rparr>)
           = votes (thread0\<lparr>votes := votes3\<rparr>)"
    using T[THEN conjunct2, THEN conjunct2, THEN conjunct2, rule_format, OF conjI, OF th b]
    by (rule conjunct1)
  have 4: "map reply_votes (preorder
             (snd (findAndVoteReply (replies (thread0\<lparr>votes := votes3\<rparr>)) ''C'' ''u1'' ''upvote'')))
           = [[], [], [\<lparr>user = ''u2'', type = ''upvote''\<rparr>, \<lparr>user = ''u1'', type = ''upvote''\<rparr>], []]"
    by (simp add: thread0_def applyVote_def)
  show ?thesis using th 1 2 3 4 by (simp add: b)
qed

subsection \<open>Locating the reply\<close>

text \<open>
  C6. \<^verbatim>\<open>findAndVoteReply\<close> is a depth-first pre-order search. With \<open>preorder\<close> listing a
  reply before the replies below it and those before its later siblings: when no node of
  the forest carries the requested id, the function returns \<open>False\<close> and leaves the forest
  as it is, and the handler answers 404 \<open>Reply not found\<close>; when \<open>k\<close> is the first position
  in pre-order whose node carries the id, the function returns \<open>True\<close>, the forest keeps
  its shape, and the vote arrays in pre-order are the old ones with the vote applied at
  position \<open>k\<close> and nowhere else; the handler then stores that forest.
\<close>

theorem findAndVoteReply_preorder:
  "(rid \<notin> reply_id ` set (preorder rs) \<longrightarrow> findAndVoteReply rs rid u t = (False, rs))
   \<and> (\<forall>k. k < length (preorder rs) \<and> reply_id (preorder rs ! k) = rid
            \<and> (\<forall>j<k. reply_id (preorder rs ! j) \<noteq> rid) \<longrightarrow>
          fst (findAndVoteReply rs rid u t)
          \<and> map eraseVotes (snd (findAndVoteReply rs rid u t)) = map eraseVotes rs
          \<and> map reply_votes (preorder (snd (findAndVoteReply rs rid u t)))
              = (map reply_votes (preorder rs))[k := applyVote (reply_votes (preorder rs ! k)) u t])
   \<and> (\<forall>thr. validationResult rt = Inr (JStr t) \<and> threads d tid = Some thr \<longrightarrow>
          (rid \<notin> reply_id ` set (preorder (replies thr)) \<longrightarrow>
             fst (voteReply d tid rid u rt)
               = \<lparr>status = 404, body = [(''message'', JStr ''Reply not found'')]\<rparr>)
          \<and> (rid \<in> reply_id ` set (preorder (replies thr)) \<longrightarrow>
               status (fst (voteReply d tid rid u rt)) = 200
               \<and> threads (snd (voteReply d tid rid u rt)) tid
                   = Some (thr\<lparr>replies := snd (findAndVoteReply (replies thr) rid u t)\<rparr>)))"
proof (intro conjI allI impI)
  assume "rid \<notin> reply_id ` set (preorder rs)"
  then show "findAndVoteReply rs rid u t = (False, rs)" by (rule findAndVoteReply_not_found)
next
  fix k
  assume a: "k < length (preorder rs) \<and> reply_id (preorder rs ! k) = rid
            \<and> (\<forall>j<k. reply_id (preorder rs ! j) \<noteq> rid)"
  then have fi: "findIndex (\<lambda>r. reply_id r = rid) (preorder rs) = Some k"
    by (intro findIndex_SomeI) simp_all
  show "fst (findAndVoteReply rs rid u t)" using fi by (simp add: findAndVoteReply_found)
  show "map eraseVotes (snd (findAndVoteReply rs rid u t)) = map eraseVotes rs"
    by (rule findAndVoteReply_shape)
  show "map reply_votes (preorder (snd (findAndVoteReply rs rid u t)))
              = (map reply_votes (preorder rs))[k := applyVote (reply_votes (preorder rs ! k)) u t]"
    using fi by (rule findAndVoteReply_votes)
next
  fix thr
  assume a: "validationResult rt = Inr (JStr t) \<and> threads d tid = Some thr"
    and n: "rid \<notin> reply_id ` set (preorder (replies thr))"
  from n have "\<not> fst (findAndVoteReply (replies thr) rid u t)"
    by (simp add: findAndVoteReply_found findIndex_None_image)
  with a show "fst (voteReply d tid rid u rt)
               = \<lparr>status = 404, body = [(''message'', JStr ''Reply not found'')]\<rparr>"
    by (simp add: voteReply_no_reply)
next
  fix thr
  assume a: "validationResult rt = Inr (JStr t) \<and> threads d tid = Some thr"
    and n: "rid \<in> reply_id ` set (preorder (replies thr))"
  from n have f: "fst (findAndVoteReply (replies thr) rid u t)"
    using findIndex_None_image[of reply_id rid "preorder (replies thr)"]
    by (simp add: findAndVoteReply_found)
  from a f show "status (fst (voteReply d tid rid u rt)) = 200"
    by (simp add: voteReply_ok)
  from a f show "threads (snd (voteReply d tid rid u rt)) tid
                   = Some (thr\<lparr>replies := snd (findAndVoteReply (replies thr) rid u t)\<rparr>)"
    by (simp add: voteReply_ok)
qed

theorem findAndVoteReply_preorder_witness:
  "map reply_id (preorder (replies thread0)) = [''A'', ''B'', ''C'', ''D'']
   \<and> findAndVoteReply (replies thread0) ''missing'' ''u1'' ''upvote'' = (False, replies thread0)
   \<and> fst (findAndVoteReply (replies thread0) ''D'' ''u1'' ''upvote'')
   \<and> map reply_votes (preorder (snd (findAndVoteReply (replies thread0) ''D'' ''u1'' ''upvote'')))
       = [[], [], [\<lparr>user = ''u2'', type = ''upvote''\<rparr>], [\<lparr>user = ''u1'', type = ''upvote''\<rparr>]]
   \<and> validationResult (JStr ''upvote'') = Inr (JStr ''upvote'')
   \<and> threads db0 ''T'' = Some thread0
   \<and> fst (voteReply db0 ''T'' ''missing'' ''u1'' (JStr ''upvote''))
       = \<lparr>status = 404, body = [(''message'', JStr ''Reply not found'')]\<rparr>
   \<and> status (fst (voteReply db0 ''T'' ''D'' ''u1'' (JStr ''upvote''))) = 200"
proof -
  note M = findAndVoteReply_preorder[of "''missing''" "replies thread0" "''u1''" "''upvote''"
             "JStr ''upvote''" db0 "''T''"]
  note D = findAndVoteReply_preorder[of "''D''" "replies thread0" "''u1''" "''upvote''"
             "JStr ''upvote''" db0 "''T''"]
  have ids: "map reply_id (preorder (replies thread0)) = [''A'', ''B'', ''C'', ''D'']"
    by (simp add: thread0_def)
  have pre: "preorder (replies thread0) =
       [Reply ''A'' ''first'' []
           [Reply ''B'' ''second'' [] [],
            Reply ''C'' ''third'' [\<lparr>user = ''u2'', type = ''upvote''\<rparr>]
              [Reply ''D'' ''fourth'' [] []]],
        Reply ''B'' ''second'' [] [],
        Reply ''C'' ''third'' [\<lparr>user = ''u2'', type = ''upvote''\<rparr>] [Reply ''D'' ''fourth'' [] []],
        Reply ''D'' ''fourth'' [] []]"
    by (simp add: thread0_def)
  have v: "validationResult (JStr ''upvote'') = Inr (JStr ''upvote'')"
    by (simp add: validationResult_def)
  have th: "threads db0 ''T'' = Some thread0" by (simp add: db0_def)
  have nm: "''missing'' \<notin> reply_id ` set (preorder (replies thread0))"
    by (simp add: pre)
  have inD: "''D'' \<in> reply_id ` set (preorder (replies thread0))"
    by (simp add: pre)
  have k: "3 < length (preorder (replies thread0)) \<and> reply_id (preorder (replies thread0) ! 3) = ''D''
            \<and> (\<forall>j<3. reply_id (preorder (replies thread0) ! j) \<noteq> ''D'')"
    by (simp add: pre less_Suc_eq numeral_3_eq_3)
  have 1: "findAndVoteReply (replies thread0) ''missing'' ''u1'' ''upvote'' = (False, replies thread0)"
    using M nm by (elim conjE) simp
  note D3 = D[THEN conjunct2, THEN conjunct1, rule_format, OF k]
  have 2: "fst (findAndVoteReply (replies thread0) ''D'' ''u1'' ''upvote'')"
    using D3 by (rule conjunct1)
  have 3: "map reply_votes (preorder (snd (findAndVoteReply (replies thread0) ''D'' ''u1'' ''upvote'')))
       = (map reply_votes (preorder (replies thread0)))
           [3 := applyVote (reply_votes (preorder (replies thread0) ! 3)) ''u1'' ''upvote'']"
    using D3 by (elim conjE)
  have r3: "(map reply_votes (preorder (replies thread0)))
           [3 := applyVote (reply_votes (preorder (replies thread0) ! 3)) ''u1'' ''upvote'']
         = [[], [], [\<lparr>user = ''u2'', type = ''upvote''\<rparr>], [\<lparr>user = ''u1'', type = ''upvote''\<rparr>]]"
    by (simp add: pre applyVote_def numeral_3_eq_3)
  have 4: "fst (voteReply db0 ''T'' ''missing'' ''u1'' (JStr ''upvote''))
       = \<lparr>status = 404, body = [(''message'', JStr ''Reply not found'')]\<rparr>"
    using M[THEN conjunct2, THEN conjunct2, rule_format, OF conjI, OF v th, THEN conjunct1] nm
    by simp
  have 5: "status (fst (voteReply db0 ''T'' ''D'' ''u1'' (JStr ''upvote''))) = 200"
    using D[THEN conjunct2, THEN conjunct2, rule_format, OF conjI, OF v th, THEN conjunct2] inD
    by simp
  show ?thesis using ids 1 2 3 r3 4 5 v th by simp
qed

subsection \<open>The response of the reply handler\<close>

text \<open>
  C7, as stated: a successful reply vote returns the new net score of the reply and the
  user's resulting vote. Evaluated on \<open>db0\<close>, where \<open>u1\<close> upvotes the reply \<open>C\<close> that
  \<open>u2\<close> has upvoted: the vote is stored and the reply's count becomes \<open>2\<close>, but the
  response is the bare message; it has no \<open>voteCount\<close>, \<open>netScore\<close> or \<open>userVote\<close> key.
\<close>

theorem voteReply_response_counterexample:
  "fst (voteReply db0 ''T'' ''C'' ''u1'' (JStr ''upvote''))
     = \<lparr>status = 200, body = [(''message'', JStr ''Vote recorded successfully'')]\<rparr>
   \<and> map_of (body (fst (voteReply db0 ''T'' ''C'' ''u1'' (JStr ''upvote'')))) ''voteCount'' = None
   \<and> map_of (body (fst (voteReply db0 ''T'' ''C'' ''u1'' (JStr ''upvote'')))) ''netScore'' = None
   \<and> map_of (body (fst (voteReply db0 ''T'' ''C'' ''u1'' (JStr ''upvote'')))) ''userVote'' = None
   \<and> threads (snd (voteReply db0 ''T'' ''C'' ''u1'' (JStr ''upvote''))) ''T''
       = Some \<lparr>author = ''a1'', votes = [],
               replies =
                 [Reply ''A'' ''first'' []
                    [Reply ''B'' ''second'' [] [],
                     Reply ''C'' ''third''
                       [\<lparr>user = ''u2'', type = ''upvote''\<rparr>, \<lparr>user = ''u1'', type = ''upvote''\<rparr>]
                       [Reply ''D'' ''fourth'' [] []]]]\<rparr>
   \<and> voteCount [\<lparr>user = ''u2'', type = ''upvote''\<rparr>, \<lparr>user = ''u1'', type = ''upvote''\<rparr>] = 2"
  by (simp add: voteReply_def db0_def thread0_def validationResult_def applyVote_def
        voteCount_def)


text \<open>
  C7, as amended: a reply vote that passed validation, found its thread and found a reply
  with the requested id is applied and stored, and is answered with status 200 and the
  message \<open>Vote recorded successfully\<close> and with nothing else. The handler returns that
  response together with the database in which the thread's reply forest is the one
  \<^verbatim>\<open>findAndVoteReply\<close> left, every other thread and every account being as before; in that
  forest the vote arrays, in pre-order, are the old ones with the vote applied at the first
  position whose reply carries the requested id.
\<close>

theorem voteReply_success_response:
  assumes "validationResult rt = Inr (JStr t)" and "threads d tid = Some thr"
    and "rid \<in> reply_id ` set (preorder (replies thr))"
  shows "voteReply d tid rid u rt
           = (\<lparr>status = 200, body = [(''message'', JStr ''Vote recorded successfully'')]\<rparr>,
              d\<lparr>threads := (threads d)(tid \<mapsto>
                   thr\<lparr>replies := snd (findAndVoteReply (replies thr) rid u t)\<rparr>)\<rparr>)
         \<and> (\<forall>k. k < length (preorder (replies thr))
                  \<and> reply_id (preorder (replies thr) ! k) = rid
                  \<and> (\<forall>j<k. reply_id (preorder (replies thr) ! j) \<noteq> rid) \<longrightarrow>
                map reply_votes (preorder (snd (findAndVoteReply (replies thr) rid u t)))
                  = (map reply_votes (preorder (replies thr)))
                      [k := applyVote (reply_votes (preorder (replies thr) ! k)) u t])"
proof (intro conjI allI impI)
  have "fst (findAndVoteReply (replies thr) rid u t)"
    using assms(3) findIndex_None_image[of reply_id rid "preorder (replies thr)"]
    by (simp add: findAndVoteReply_found)
  with assms(1,2) show "voteReply d tid rid u rt
           = (\<lparr>status = 200, body = [(''message'', JStr ''Vote recorded successfully'')]\<rparr>,
              d\<lparr>threads := (threads d)(tid \<mapsto>
                   thr\<lparr>replies := snd (findAndVoteReply (replies thr) rid u t)\<rparr>)\<rparr>)"
    by (rule voteReply_ok)
next
  fix k
  assume "k < length (preorder (replies thr))
            \<and> reply_id (preorder (replies thr) ! k) = rid
            \<and> (\<forall>j<k. reply_id (preorder (replies thr) ! j) \<noteq> rid)"
  then have "findIndex (\<lambda>r. reply_id r = rid) (preorder (replies thr)) = Some k"
    by (intro findIndex_SomeI) simp_all
  then show "map reply_votes (preorder (snd (findAndVoteReply (replies thr) rid u t)))
                  = (map reply_votes (preorder (replies thr)))
                      [k := applyVote (reply_votes (preorder (replies thr) ! k)) u t]"
    by (rule findAndVoteReply_votes)
qed

theorem voteReply_success_response_witness:
  "validationResult (JStr ''downvote'') = Inr (JStr ''downvote'')
   \<and> threads db1 ''T'' = Some (thread0\<lparr>votes := votes3\<rparr>)
   \<and> ''B'' \<in> reply_id ` set (preorder (replies (thread0\<lparr>votes := votes3\<rparr>)))
   \<and> fst (voteReply db1 ''T'' ''B'' ''u3'' (JStr ''downvote''))
       = \<lparr>status = 200, body = [(''message'', JStr ''Vote recorded successfully'')]\<rparr>
   \<and> threads (snd (voteReply db1 ''T'' ''B'' ''u3'' (JStr ''downvote''))) ''T''
       = Some \<lparr>author = ''a1'', votes = votes3,
               replies =
                 [Reply ''A'' ''first'' []
                    [Reply ''B'' ''second'' [\<lparr>user = ''u3'', type = ''downvote''\<rparr>] [],
                     Reply ''C'' ''third'' [\<lparr>user = ''u2'', type = ''upvote''\<rparr>]
                       [Reply ''D'' ''fourth'' [] []]]]\<rparr>
   \<and> users (snd (voteReply db1 ''T'' ''B'' ''u3'' (JStr ''downvote''))) = users db1"
proof -
  have v: "validationResult (JStr ''downvote'') = Inr (JStr ''downvote'')"
    by (simp add: validationResult_def)
  have th: "threads db1 ''T'' = Some (thread0\<lparr>votes := votes3\<rparr>)"
    by (simp add: db1_def)
  have b: "''B'' \<in> reply_id ` set (preorder (replies (thread0\<lparr>votes := votes3\<rparr>)))"
    by (simp add: thread0_def)
  have r: "snd (findAndVoteReply (replies (thread0\<lparr>votes := votes3\<rparr>)) ''B'' ''u3'' ''downvote'')
           = [Reply ''A'' ''first'' []
                    [Reply ''B'' ''second'' [\<lparr>user = ''u3'', type = ''downvote''\<rparr>] [],
                     Reply ''C'' ''third'' [\<lparr>user = ''u2'', type = ''upvote''\<rparr>]
                       [Reply ''D'' ''fourth'' [] []]]]"
    by (simp add: thread0_def applyVote_def)
  have e: "voteReply db1 ''T'' ''B'' ''u3'' (JStr ''downvote'')
           = (\<lparr>status = 200, body = [(''message'', JStr ''Vote recorded successfully'')]\<rparr>,
              db1\<lparr>threads := (threads db1)(''T'' \<mapsto>
                   (thread0\<lparr>votes := votes3\<rparr>)\<lparr>replies :=
                      snd (findAndVoteReply (replies (thread0\<lparr>votes := votes3\<rparr>))
                             ''B'' ''u3'' ''downvote'')\<rparr>)\<rparr>)"
    using voteReply_success_response[OF v th b, of "''u3''"] by (rule conjunct1)
  have 1: "fst (voteReply db1 ''T'' ''B'' ''u3'' (JStr ''downvote''))
       = \<lparr>status = 200, body = [(''message'', JStr ''Vote recorded successfully'')]\<rparr>"
    by (simp only: e fst_conv)
  have 2: "threads (snd (voteReply db1 ''T'' ''B'' ''u3'' (JStr ''downvote''))) ''T''
       = Some \<lparr>author = ''a1'', votes = votes3,
               replies =
                 [Reply ''A'' ''first'' []
                    [Reply ''B'' ''second'' [\<lparr>user = ''u3'', type = ''downvote''\<rparr>] [],
                     Reply ''C'' ''third'' [\<lparr>user = ''u2'', type = ''upvote''\<rparr>]
                       [Reply ''D'' ''fourth'' [] []]]]\<rparr>"
    unfolding e r by (simp add: thread0_def)
  have 3: "users (snd (voteReply db1 ''T'' ''B'' ''u3'' (JStr ''downvote''))) = users db1"
    unfolding e by simp
  show ?thesis using v th b 1 2 3 by (intro conjI)
qed

subsection \<open>Voting twice\<close>

lemma applyVote_twice:
  assumes "find (\<lambda>v. user v = u) vs = None"
  shows "applyVote (applyVote vs u t) u t = vs"
proof -
  have n: "findIndex (\<lambda>v. user v = u) vs = None"
    using assms by (simp add: find_findIndex)
  have 1: "applyVote vs u t = vs @ [\<lparr>user = u, type = t\<rparr>]"
    using assms by (rule applyVote_absent)
  have 2: "findIndex (\<lambda>v. user v = u) (vs @ [\<lparr>user = u, type = t\<rparr>]) = Some (length vs)"
    using n by (simp add: findIndex_append)
  show ?thesis unfolding 1 by (simp add: applyVote_def 2 splice1_def)
qed

lemma voteCount_append:
  "voteCount (vs @ [\<lparr>user = u, type = t\<rparr>]) =
     voteCount vs + (if t = ''upvote'' then 1 else 0) - (if t = ''downvote'' then 1 else 0)"
  by (simp add: voteCount_def)

text \<open>
  C8. When the array has no entry of user \<open>u\<close>, applying the same vote of \<open>u\<close> twice
  gives the array back: the second application removes the entry the first one pushed,
  \<open>u\<close> has no vote afterwards, and the count is the one before. In between, an upvote
  raises the count by one and a downvote lowers it by one. Through the thread handler,
  two equal requests in a row leave the stored thread as it was.
\<close>

theorem applyVote_toggle_round_trip:
  assumes "find (\<lambda>v. user v = u) vs = None"
  shows "applyVote (applyVote vs u t) u t = vs
         \<and> find (\<lambda>v. user v = u) (applyVote (applyVote vs u t) u t) = None
         \<and> voteCount (applyVote (applyVote vs u t) u t) = voteCount vs
         \<and> voteCount (applyVote vs u ''upvote'') = voteCount vs + 1
         \<and> voteCount (applyVote vs u ''downvote'') = voteCount vs - 1
         \<and> (\<forall>thr. validationResult rt = Inr (JStr t) \<and> threads d tid = Some thr \<and> votes thr = vs \<longrightarrow>
               threads (snd (voteThread (snd (voteThread d tid u rt)) tid u rt)) tid = Some thr)"
proof (intro conjI allI impI)
  show tw: "applyVote (applyVote vs u t) u t = vs" using assms by (rule applyVote_twice)
  show "find (\<lambda>v. user v = u) (applyVote (applyVote vs u t) u t) = None"
    using assms by (simp only: tw)
  show "voteCount (applyVote (applyVote vs u t) u t) = voteCount vs" by (simp only: tw)
  show "voteCount (applyVote vs u ''upvote'') = voteCount vs + 1"
    by (simp add: applyVote_absent[OF assms] voteCount_append)
  show "voteCount (applyVote vs u ''downvote'') = voteCount vs - 1"
    by (simp add: applyVote_absent[OF assms] voteCount_append)
  fix thr
  assume a: "validationResult rt = Inr (JStr t) \<and> threads d tid = Some thr \<and> votes thr = vs"
  then have v: "validationResult rt = Inr (JStr t)" and th: "threads d tid = Some thr"
    and vs: "votes thr = vs" by simp_all
  have th1: "threads (snd (voteThread d tid u rt)) tid
             = Some (thr\<lparr>votes := applyVote vs u t\<rparr>)"
    by (simp add: voteThread_db[OF v th] vs)
  show "threads (snd (voteThread (snd (voteThread d tid u rt)) tid u rt)) tid = Some thr"
    using vs by (simp add: voteThread_db[OF v th1] tw)
qed

theorem applyVote_toggle_round_trip_witness:
  "find (\<lambda>v. user v = ''u4'') votes3 = None
   \<and> applyVote (applyVote votes3 ''u4'' ''upvote'') ''u4'' ''upvote'' = votes3
   \<and> voteCount (applyVote votes3 ''u4'' ''upvote'') = 2
   \<and> voteCount (applyVote (applyVote votes3 ''u4'' ''upvote'') ''u4'' ''upvote'') = 1
   \<and> threads (snd (voteThread (snd (voteThread db1 ''T'' ''u4'' (JStr ''upvote'')))
                      ''T'' ''u4'' (JStr ''upvote''))) ''T''
       = Some (thread0\<lparr>votes := votes3\<rparr>)"
proof -
  have n: "find (\<lambda>v. user v = ''u4'') votes3 = None" by (simp add: votes3_def)
  have v: "validationResult (JStr ''upvote'') = Inr (JStr ''upvote'')"
    by (simp add: validationResult_def)
  have th: "threads db1 ''T'' = Some (thread0\<lparr>votes := votes3\<rparr>)"
    by (simp add: db1_def)
  have c: "voteCount votes3 = 1" by (simp add: voteCount_def votes3_def)
  note T = applyVote_toggle_round_trip[OF n, of "''upvote''" "JStr ''upvote''" db1 "''T''"]
  have 5: "threads (snd (voteThread (snd (voteThread db1 ''T'' ''u4'' (JStr ''upvote'')))
                      ''T'' ''u4'' (JStr ''upvote''))) ''T''
       = Some (thread0\<lparr>votes := votes3\<rparr>)"
    using T[THEN conjunct2, THEN conjunct2, THEN conjunct2, THEN conjunct2, THEN conjunct2,
            rule_format, of "thread0\<lparr>votes := votes3\<rparr>"] v th by simp
  have 1: "applyVote (applyVote votes3 ''u4'' ''upvote'') ''u4'' ''upvote'' = votes3"
    using T by (rule conjunct1)
  have 2: "voteCount (applyVote votes3 ''u4'' ''upvote'') = voteCount votes3 + 1"
    using T by (elim conjE)
  have 3: "voteCount (applyVote (applyVote votes3 ''u4'' ''upvote'') ''u4'' ''upvote'')
           = voteCount votes3"
    using T by (elim conjE)
  show ?thesis using n 1 2 3 5 c by simp
qed


subsection \<open>Requests that are turned away\<close>

text \<open>
  C9. For a request that passed validation: when no thread has the requested id, both
  handlers answer 404 \<open>Thread not found\<close> and the database is the one before; when the
  thread exists but no node of its reply forest has the requested reply id, the reply
  handler answers 404 \<open>Reply not found\<close> and the database, threads and accounts, is the
  one before.
\<close>

theorem not_found_is_atomic:
  assumes "validationResult rt = Inr ty"
  shows "(threads d tid = None \<longrightarrow>
            voteThread d tid u rt
              = (\<lparr>status = 404, body = [(''message'', JStr ''Thread not found'')]\<rparr>, d)
            \<and> voteReply d tid rid u rt
              = (\<lparr>status = 404, body = [(''message'', JStr ''Thread not found'')]\<rparr>, d))
         \<and> (\<forall>thr. threads d tid = Some thr \<and> rid \<notin> reply_id ` set (preorder (replies thr)) \<longrightarrow>
              voteReply d tid rid u rt
                = (\<lparr>status = 404, body = [(''message'', JStr ''Reply not found'')]\<rparr>, d))"
proof (intro conjI allI impI)
  assume n: "threads d tid = None"
  show "voteThread d tid u rt
              = (\<lparr>status = 404, body = [(''message'', JStr ''Thread not found'')]\<rparr>, d)"
    using assms n by (rule voteThread_no_thread)
  show "voteReply d tid rid u rt
              = (\<lparr>status = 404, body = [(''message'', JStr ''Thread not found'')]\<rparr>, d)"
    using assms n by (rule voteReply_no_thread)
next
  fix thr
  assume a: "threads d tid = Some thr \<and> rid \<notin> reply_id ` set (preorder (replies thr))"
  then have th: "threads d tid = Some thr" by (rule conjunct1)
  have nf: "\<And>t. \<not> fst (findAndVoteReply (replies thr) rid u t)"
    using a by (simp add: findAndVoteReply_found findIndex_None_image)
  show "voteReply d tid rid u rt
                = (\<lparr>status = 404, body = [(''message'', JStr ''Reply not found'')]\<rparr>, d)"
  proof (cases "\<exists>t. ty = JStr t")
    case True
    then obtain t where "ty = JStr t" by (elim exE)
    then show ?thesis using assms th nf[of t] voteReply_no_reply[of rt t d tid thr rid u]
      by simp
  next
    case False
    have "\<not> findReply (replies thr) rid"
      using nf[of "''upvote''"] by (simp add: findReply_findAndVoteReply[of _ _ u "''upvote''"])
    then show ?thesis using assms th False by (simp add: voteReply_rejected)
  qed
qed

theorem not_found_is_atomic_witness:
  "validationResult (JStr ''downvote'') = Inr (JStr ''downvote'')
   \<and> threads db1 ''nowhere'' = None
   \<and> voteThread db1 ''nowhere'' ''u1'' (JStr ''downvote'')
       = (\<lparr>status = 404, body = [(''message'', JStr ''Thread not found'')]\<rparr>, db1)
   \<and> voteReply db1 ''nowhere'' ''A'' ''u1'' (JStr ''downvote'')
       = (\<lparr>status = 404, body = [(''message'', JStr ''Thread not found'')]\<rparr>, db1)
   \<and> threads db1 ''T'' = Some (thread0\<lparr>votes := votes3\<rparr>)
   \<and> ''E'' \<notin> reply_id ` set (preorder (replies (thread0\<lparr>votes := votes3\<rparr>)))
   \<and> voteReply db1 ''T'' ''E'' ''u1'' (JStr ''downvote'')
       = (\<lparr>status = 404, body = [(''message'', JStr ''Reply not found'')]\<rparr>, db1)"
proof -
  have v: "validationResult (JStr ''downvote'') = Inr (JStr ''downvote'')"
    by (simp add: validationResult_def)
  have n: "threads db1 ''nowhere'' = None" by (simp add: db1_def)
  have th: "threads db1 ''T'' = Some (thread0\<lparr>votes := votes3\<rparr>)"
    by (simp add: db1_def)
  have e: "''E'' \<notin> reply_id ` set (preorder (replies (thread0\<lparr>votes := votes3\<rparr>)))"
    by (simp add: thread0_def)
  note A = not_found_is_atomic[OF v, of db1 "''nowhere''" "''u1''" "''A''"]
  note B = not_found_is_atomic[OF v, of db1 "''T''" "''u1''" "''E''"]
  have 1: "voteThread db1 ''nowhere'' ''u1'' (JStr ''downvote'')
       = (\<lparr>status = 404, body = [(''message'', JStr ''Thread not found'')]\<rparr>, db1)"
    using A[THEN conjunct1, rule_format, OF n] by (rule conjunct1)
  have 2: "voteReply db1 ''nowhere'' ''A'' ''u1'' (JStr ''downvote'')
       = (\<lparr>status = 404, body = [(''message'', JStr ''Thread not found'')]\<rparr>, db1)"
    using A[THEN conjunct1, rule_format, OF n] by (rule conjunct2)
  have 3: "voteReply db1 ''T'' ''E'' ''u1'' (JStr ''downvote'')
       = (\<lparr>status = 404, body = [(''message'', JStr ''Reply not found'')]\<rparr>, db1)"
    using B[THEN conjunct2, rule_format, OF conjI, OF th e] .
  show ?thesis using v n th e 1 2 3 by (intro conjI)
qed

text \<open>
  C10. A request whose \<open>type\<close> is absent or is any string other than \<open>upvote\<close> and
  \<open>downvote\<close> is answered by both handlers with status 400 and the validation error;
  the answer does not depend on the database, which is returned as it was.
\<close>


text \<open>
  C10. A request whose \<open>type\<close> is not one of \<open>upvote\<close> and \<open>downvote\<close> is rejected by
  both handlers with status 400 before any thread is loaded. Evaluated on the body
  \<open>{type: ['upvote']}\<close>: the value is an array, the validation chain checks it element by
  element and records no error (as it does for the empty array), and the handlers go on
  to the thread: for a thread id that no thread has the answer is 404 \<open>Thread not found\<close>,
  and for the thread \<open>T\<close> the reply forest is searched and the answer is 404
  \<open>Reply not found\<close>. Neither answer is the 400 of the claim.
\<close>

theorem array_type_passes_validation:
  "validationResult (JArr [JStr ''upvote'']) = Inr (JArr [JStr ''upvote''])
   \<and> validationResult (JArr []) = Inr (JArr [])
   \<and> voteThread db0 ''nowhere'' ''u1'' (JArr [JStr ''upvote''])
       = (\<lparr>status = 404, body = [(''message'', JStr ''Thread not found'')]\<rparr>, db0)
   \<and> voteReply db0 ''nowhere'' ''A'' ''u1'' (JArr [JStr ''upvote''])
       = (\<lparr>status = 404, body = [(''message'', JStr ''Thread not found'')]\<rparr>, db0)
   \<and> voteReply db0 ''T'' ''missing'' ''u1'' (JArr [JStr ''upvote''])
       = (\<lparr>status = 404, body = [(''message'', JStr ''Reply not found'')]\<rparr>, db0)"
  by (simp add: validationResult_def voteThread_def voteReply_def db0_def thread0_def)

text \<open>What the chain does reject: a \<open>type\<close> that is not an array and is not one of the
  two strings (absent, \<^verbatim>\<open>null\<close>, a boolean, a number, another string, an object) gets
  status 400 from both handlers, with one error that carries the value, and the database
  is returned as it was.\<close>

lemma isIn_not_array:
  "\<forall>xs. v \<noteq> JArr xs \<Longrightarrow> isIn v \<longleftrightarrow> (v = JStr ''upvote'' \<or> v = JStr ''downvote'')"
  by (cases v) auto

lemma scalar_type_rejected:
  assumes "rt \<noteq> JStr ''upvote''" and "rt \<noteq> JStr ''downvote''" and "\<forall>xs. rt \<noteq> JArr xs"
  shows "voteThread d tid u rt
           = (\<lparr>status = 400, body = [(''errors'', JArr [fieldError rt])]\<rparr>, d)
         \<and> voteReply d tid rid u rt
           = (\<lparr>status = 400, body = [(''errors'', JArr [fieldError rt])]\<rparr>, d)"
proof -
  have "\<not> isIn rt" using assms by (simp add: isIn_not_array)
  then have "validationResult rt = Inl [fieldError rt]"
    using assms(3) by (cases rt) (simp_all add: validationResult_def)
  then show ?thesis by (simp add: voteThread_invalid voteReply_invalid)
qed

end
